theory Spec2Isabelle
  imports Complex_Main "HOL-Library.Word"
begin

section \<open>The Pomodoro timer component of \<^verbatim>\<open>Website/src/App.js\<close>\<close>

text \<open>
  The component is a single React function component. Its \<^verbatim>\<open>useState\<close> cells and
  \<^verbatim>\<open>useRef\<close> cells become the fields of one record, its event handlers and effects become
  functions from state to state, and the browser facilities it calls (the animation-frame
  queue, the two clocks) become explicit parts of the state or explicit arguments.

  A JavaScript number is an IEEE binary64 value. Minute and second counts that the code
  only ever builds from small integers are \<open>int\<close>, where binary64 arithmetic is exact.
  Time stamps and elapsed times are \<open>real\<close>: a finite double is the real number it
  denotes, and the timer's subtractions, its multiplication and its division are the exact
  operation followed by rounding to the nearest double. The heights of the productivity
  curve are computed over the reals.
\<close>

subsection \<open>Binary64 arithmetic\<close>

text \<open>
  \<open>roundTiesToEven\<close> rounds a real to the nearest integer, a tie to the even neighbour.
  A double is an integer multiple of its unit in the last place, \<open>2\<close> to the power
  \<open>ulp_exponent\<close>: with 53 significant bits the unit lies 52 binary places below the
  leading bit, and never below \<open>2\<close> to the \<open>-1074\<close>, the spacing of the subnormal
  numbers. \<open>double x\<close> is the double nearest to \<open>x\<close>.

  The exponent is not bounded above: where a result of the code exceeds the largest finite
  double and becomes \<^verbatim>\<open>Infinity\<close>, the model has a finite value beyond that bound. The timer
  only compares such a value with the total (at most 7200), takes \<^verbatim>\<open>Math.max\<close> of it with 0,
  or replaces it by the total, so the states of the model and of the code agree there too.
\<close>

definition roundTiesToEven :: "real \<Rightarrow> int" where
  "roundTiesToEven z =
     (let f = \<lfloor>z\<rfloor>; d = z - of_int f
      in if d < 1 / 2 then f else if 1 / 2 < d then f + 1 else if even f then f else f + 1)"

definition ulp_exponent :: "real \<Rightarrow> int" where
  "ulp_exponent x = max (\<lfloor>log 2 \<bar>x\<bar>\<rfloor> - 52) (- 1074)"

definition double :: "real \<Rightarrow> real" where
  "double x =
     (if x = 0 then 0
      else of_int (roundTiesToEven (x / 2 powi ulp_exponent x)) * 2 powi ulp_exponent x)"

text \<open>The operators \<^verbatim>\<open>-\<close>, \<^verbatim>\<open>*\<close> and \<^verbatim>\<open>/\<close> on doubles.\<close>

definition sub64 :: "real \<Rightarrow> real \<Rightarrow> real" where
  "sub64 a b = double (a - b)"

definition mul64 :: "real \<Rightarrow> real \<Rightarrow> real" where
  "mul64 a b = double (a * b)"

definition div64 :: "real \<Rightarrow> real \<Rightarrow> real" where
  "div64 a b = double (a / b)"

subsection \<open>Strings\<close>

text \<open>
  A JavaScript string is a sequence of UTF-16 code units. \<^verbatim>\<open>String.prototype.trim\<close> removes
  the code units that ECMAScript classifies as WhiteSpace or LineTerminator from both ends.
\<close>

type_synonym jsstring = "16 word list"

definition ascii :: "string \<Rightarrow> jsstring" where
  "ascii cs = map (\<lambda>c. of_nat (of_char c)) cs"

definition isWhiteSpace :: "16 word \<Rightarrow> bool" where
  "isWhiteSpace c \<longleftrightarrow>
     c = 0x09 \<or> c = 0x0A \<or> c = 0x0B \<or> c = 0x0C \<or> c = 0x0D \<or> c = 0x20 \<or> c = 0xA0 \<or>
     c = 0x1680 \<or> (0x2000 \<le> c \<and> c \<le> 0x200A) \<or> c = 0x2028 \<or> c = 0x2029 \<or>
     c = 0x202F \<or> c = 0x205F \<or> c = 0x3000 \<or> c = 0xFEFF"

definition trim :: "jsstring \<Rightarrow> jsstring" where
  "trim str = rev (dropWhile isWhiteSpace (rev (dropWhile isWhiteSpace str)))"

subsection \<open>Constants\<close>

definition DURATIONS :: "int list" where
  "DURATIONS = [120, 90, 60, 30, 15, 10, 5]"

fun BREAK_RECOMMENDATIONS :: "int \<Rightarrow> int list" where
  "BREAK_RECOMMENDATIONS d =
     (if d = 120 then [15, 20, 30]
      else if d = 90 then [15, 20]
      else if d = 60 then [10, 15]
      else if d = 30 then [5, 10]
      else if d = 15 then [3, 5]
      else if d = 10 then [2, 3]
      else if d = 5 then [1, 2]
      else [])"

subsection \<open>The productivity curve\<close>

record point =
  x_point :: real
  y_point :: real

text \<open>Lines 49 to 52: the number of Gaussian peaks for a session of the given minutes.\<close>

definition peaks :: "real \<Rightarrow> nat" where
  "peaks minutes =
     (if minutes \<ge> 90 then 3
      else if minutes \<ge> 60 then 2
      else if minutes \<ge> 30 then 1
      else 1)"

text \<open>
  Lines 58 to 65: the height of the curve at time \<open>t\<close> (seconds). The inner loop adds one
  Gaussian per peak to the accumulator \<open>y\<close>, which starts at 0; then the decay factor is
  applied.
\<close>

definition gaussian :: "real \<Rightarrow> nat \<Rightarrow> real \<Rightarrow> nat \<Rightarrow> real" where
  "gaussian tMax pk t p =
     (let center = ((real p + 1) / (real pk + 1)) * tMax;
          width = tMax / (real pk * 3.5)
      in exp (- (((t - center) / width) ^ 2)))"

definition sampleY :: "real \<Rightarrow> nat \<Rightarrow> real \<Rightarrow> real" where
  "sampleY tMax pk t =
     (let y = fold (\<lambda>p y. y + gaussian tMax pk t p) [0..<pk] 0
      in y * (1 - 0.15 * (t / tMax)))"

text \<open>
  Lines 45 to 72. The outer loop runs \<open>i\<close> from 0 to \<open>samples\<close> inclusive; \<^verbatim>\<open>Math.max\<close> of
  the spread list of heights is the greatest element of that list, which is never empty.
\<close>

definition rawPoints :: "real \<Rightarrow> nat \<Rightarrow> point list" where
  "rawPoints minutes samples =
     (let tMax = minutes * 60; pk = peaks minutes
      in map (\<lambda>i. let t = (real i / real samples) * tMax
                  in \<lparr>x_point = real i / real samples, y_point = sampleY tMax pk t\<rparr>)
             [0..<samples + 1])"

definition sampleProductivityCurve :: "real \<Rightarrow> nat \<Rightarrow> point list" where
  "sampleProductivityCurve minutes samples =
     (let points = rawPoints minutes samples;
          ys = map y_point points;
          maxY = Max (set ys)
      in map (\<lambda>p. \<lparr>x_point = x_point p, y_point = y_point p / maxY\<rparr>) points)"

text \<open>The default value of the second parameter, used by every call in the component.\<close>

definition samples_default :: nat where
  "samples_default = 200"

subsection \<open>Tasks\<close>

record task =
  id_task :: int
  text_task :: jsstring
  done_task :: bool

subsection \<open>Component state\<close>

text \<open>
  The first nine fields are the \<^verbatim>\<open>useState\<close> cells of lines 75 to 86, the next four the
  \<^verbatim>\<open>useRef\<close> cells of lines 89 to 93 (\<^verbatim>\<open>null\<close> is \<open>None\<close>). The last two model the browser's
  animation-frame queue: the handles of the callbacks that \<^verbatim>\<open>requestAnimationFrame\<close> has
  scheduled and that have neither run nor been cancelled, oldest first, and the next
  handle it will hand out. Every callback the component schedules is \<^verbatim>\<open>tick\<close>.
\<close>

record state =
  selectedMinutes :: int
  breakMinutes :: "int option"
  running :: bool
  secondsLeft :: int
  elapsed :: real
  tasks :: "task list"
  newTask :: jsstring
  sessionsCompleted :: nat
  celebrate :: bool
  rafRef :: "nat option"
  startTimestampRef :: "real option"
  totalSecondsRef :: int
  curveRef :: "point list"
  rafCallbacks :: "nat list"
  rafNextHandle :: nat

definition init :: state where
  "init =
     \<lparr>selectedMinutes = 30,
      breakMinutes = None,
      running = False,
      secondsLeft = 30 * 60,
      elapsed = 0,
      tasks = [\<lparr>id_task = 1, text_task = ascii ''Read article'', done_task = False\<rparr>,
               \<lparr>id_task = 2, text_task = ascii ''Write report'', done_task = False\<rparr>],
      newTask = [],
      sessionsCompleted = 0,
      celebrate = False,
      rafRef = None,
      startTimestampRef = None,
      totalSecondsRef = 30 * 60,
      curveRef = sampleProductivityCurve 30 samples_default,
      rafCallbacks = [],
      rafNextHandle = 1\<rparr>"

subsection \<open>The animation-frame queue\<close>

text \<open>
  \<^verbatim>\<open>rafRef.current = requestAnimationFrame(tick)\<close>: schedule a callback under a fresh handle
  and store the handle.
\<close>

definition requestAnimationFrame :: "state \<Rightarrow> state" where
  "requestAnimationFrame s =
     s\<lparr>rafRef := Some (rafNextHandle s),
       rafCallbacks := rafCallbacks s @ [rafNextHandle s],
       rafNextHandle := rafNextHandle s + 1\<rparr>"

text \<open>
  \<^verbatim>\<open>cancelAnimationFrame(rafRef.current)\<close>: remove the callback with the stored handle, if it
  is still scheduled; with \<^verbatim>\<open>null\<close> or a stale handle nothing happens.
\<close>

definition cancelAnimationFrame :: "state \<Rightarrow> state" where
  "cancelAnimationFrame s =
     s\<lparr>rafCallbacks :=
         (case rafRef s of
            None \<Rightarrow> rafCallbacks s
          | Some h \<Rightarrow> removeAll h (rafCallbacks s))\<rparr>"

subsection \<open>Effects and handlers\<close>

text \<open>Lines 95 to 104: the effect that runs when \<^verbatim>\<open>selectedMinutes\<close> has changed.\<close>

definition selectedMinutesEffect :: "state \<Rightarrow> state" where
  "selectedMinutesEffect s =
     cancelAnimationFrame
       (s\<lparr>secondsLeft := selectedMinutes s * 60,
          elapsed := 0,
          totalSecondsRef := selectedMinutes s * 60,
          curveRef := sampleProductivityCurve (of_int (selectedMinutes s)) samples_default,
          breakMinutes := None,
          running := False\<rparr>)"

text \<open>Lines 162 to 166, without the sound: the overlay flag is raised.\<close>

definition triggerCelebration :: "state \<Rightarrow> state" where
  "triggerCelebration s = s\<lparr>celebrate := True\<rparr>"

text \<open>
  Lines 112 to 127: the frame callback, called with the frame's time stamp. A state whose
  start reference is still \<^verbatim>\<open>null\<close> makes \<^verbatim>\<open>now - null\<close> equal to \<^verbatim>\<open>now\<close>.
\<close>

definition elapsedSec :: "real \<Rightarrow> state \<Rightarrow> real" where
  "elapsedSec now s =
     max 0 (div64 (sub64 now (case startTimestampRef s of None \<Rightarrow> 0 | Some t \<Rightarrow> t)) 1000)"

definition tick :: "real \<Rightarrow> state \<Rightarrow> state" where
  "tick now s =
     (let e = elapsedSec now s;
          left = max 0 \<lceil>sub64 (of_int (totalSecondsRef s)) e\<rceil>;
          s1 = s\<lparr>elapsed := e, secondsLeft := left\<rparr>
      in if e \<ge> of_int (totalSecondsRef s)
         then triggerCelebration
                (s1\<lparr>running := False,
                    elapsed := of_int (totalSecondsRef s),
                    secondsLeft := 0,
                    sessionsCompleted := sessionsCompleted s1 + 1\<rparr>)
         else requestAnimationFrame s1)"

text \<open>
  Lines 106 to 132: the effect that depends on \<^verbatim>\<open>running\<close>. When \<^verbatim>\<open>running\<close> is true it
  anchors the start reference at the reading \<open>clock\<close> of \<^verbatim>\<open>performance.now()\<close> and schedules
  the first frame; its cleanup cancels the stored handle.
\<close>

definition runningEffect :: "real \<Rightarrow> state \<Rightarrow> state" where
  "runningEffect clock s =
     (if \<not> running s then s
      else requestAnimationFrame
             (s\<lparr>startTimestampRef := Some (sub64 clock (mul64 (elapsed s) 1000))\<rparr>))"

definition runningCleanup :: "state \<Rightarrow> state" where
  "runningCleanup s = cancelAnimationFrame s"

text \<open>
  React runs an effect after a render in which one of its dependencies differs from the
  previous render: first the cleanup the effect returned last time, then the effect. The
  effect of lines 106 to 132 returns a cleanup only when it ran with \<^verbatim>\<open>running\<close> true.
  \<open>old\<close> is the state of the previous render. The reading \<open>clock\<close> is consulted only
  when \<^verbatim>\<open>running\<close> has just become true, that is after a click on Start; the other
  callers pass a value that is never read.
\<close>

definition afterRender :: "real \<Rightarrow> state \<Rightarrow> state \<Rightarrow> state" where
  "afterRender clock old s =
     (if running s = running old then s
      else if running s then runningEffect clock s
      else runningEffect clock (runningCleanup s))"

text \<open>Lines 134 to 142.\<close>

definition startStop :: "state \<Rightarrow> state" where
  "startStop s =
     (if running s then cancelAnimationFrame (s\<lparr>running := False\<rparr>)
      else s\<lparr>running := True\<rparr>)"

text \<open>Lines 144 to 149.\<close>

definition resetTimer :: "state \<Rightarrow> state" where
  "resetTimer s =
     (cancelAnimationFrame (s\<lparr>running := False\<rparr>))
       \<lparr>secondsLeft := selectedMinutes s * 60, elapsed := 0\<rparr>"

text \<open>
  Lines 151 to 155; \<open>dateNow\<close> is the reading of \<^verbatim>\<open>Date.now()\<close>. The empty string is the
  only string that is falsy.
\<close>

definition addTask :: "int \<Rightarrow> state \<Rightarrow> state" where
  "addTask dateNow s =
     (if trim (newTask s) = [] then s
      else s\<lparr>tasks := tasks s @ [\<lparr>id_task = dateNow, text_task = trim (newTask s),
                                  done_task = False\<rparr>],
             newTask := []\<rparr>)"

text \<open>Lines 157 to 159.\<close>

definition toggleTask :: "int \<Rightarrow> state \<Rightarrow> state" where
  "toggleTask i s =
     s\<lparr>tasks := map (\<lambda>task. if id_task task = i then task\<lparr>done_task := \<not> done_task task\<rparr>
                             else task)
                     (tasks s)\<rparr>"

subsection \<open>Events\<close>

text \<open>
  What can happen to a mounted component: a click on one of the buttons, typing into the
  task input, a click on a task's checkbox, an animation frame, and the timeout that
  lowers the celebration overlay. Clock readings come with the event; the readings of
  \<^verbatim>\<open>performance.now()\<close> and the time stamps of frames are doubles, and the functions
  below are defined for every real. One event is one
  step: the handler or callback runs, and with it the renders and effects it causes, before
  the next event is looked at.
\<close>

datatype event =
    ClickDuration int
  | ClickBreak int
  | ClickNoBreak
  | ClickStartStop real
  | ClickReset
  | Frame real
  | ChangeNewTask jsstring
  | ClickAdd int
  | ClickCheckbox int
  | CelebrationTimeout

text \<open>
  A click on the button of duration \<open>d\<close> (line 280) sets \<^verbatim>\<open>selectedMinutes\<close>; React renders
  again only when the value differs, and then the effect of lines 95 to 104 runs, and
  after the render it causes, the cleanup of the other effect.
\<close>

definition setSelectedMinutes :: "int \<Rightarrow> state \<Rightarrow> state" where
  "setSelectedMinutes d s =
     (if d = selectedMinutes s then s
      else afterRender 0 s (selectedMinutesEffect (s\<lparr>selectedMinutes := d\<rparr>)))"

text \<open>
  An animation frame with time stamp \<open>now\<close> runs the oldest scheduled callback, which
  leaves the queue before it runs.
\<close>

definition frame :: "real \<Rightarrow> state \<Rightarrow> state" where
  "frame now s =
     (case rafCallbacks s of
        [] \<Rightarrow> s
      | h # rest \<Rightarrow> afterRender now s (tick now (s\<lparr>rafCallbacks := rest\<rparr>)))"

fun step :: "event \<Rightarrow> state \<Rightarrow> state" where
  "step (ClickDuration d) s = (if d \<in> set DURATIONS then setSelectedMinutes d s else s)"
| "step (ClickBreak b) s =
     (if b \<in> set (BREAK_RECOMMENDATIONS (selectedMinutes s)) then s\<lparr>breakMinutes := Some b\<rparr>
      else s)"
| "step ClickNoBreak s = s\<lparr>breakMinutes := Some 0\<rparr>"
| "step (ClickStartStop clock) s = afterRender clock s (startStop s)"
| "step ClickReset s = afterRender 0 s (resetTimer s)"
| "step (Frame now) s = frame now s"
| "step (ChangeNewTask str) s = s\<lparr>newTask := str\<rparr>"
| "step (ClickAdd dateNow) s = addTask dateNow s"
| "step (ClickCheckbox i) s = toggleTask i s"
| "step CelebrationTimeout s = s\<lparr>celebrate := False\<rparr>"

text \<open>The state after a history of events, starting from the mounted component.\<close>

definition run :: "event list \<Rightarrow> state" where
  "run es = fold step es init"

subsection \<open>What holds between events\<close>

text \<open>
  The facts about the timer that every state reached by a history of events satisfies: the
  total is sixty times the selected duration, the elapsed time is a double between zero and
  the total (a multiple of the smallest subnormal, that is), the displayed remaining
  seconds are the rounded-up binary64 difference, and the frame queue holds exactly the
  callback whose handle is stored while the timer runs and nothing otherwise.
\<close>

definition timer_inv :: "state \<Rightarrow> bool" where
  "timer_inv s \<longleftrightarrow>
     selectedMinutes s \<in> set DURATIONS \<and>
     totalSecondsRef s = selectedMinutes s * 60 \<and>
     0 \<le> elapsed s \<and> elapsed s \<le> of_int (totalSecondsRef s) \<and>
     elapsed s * 2 ^ 1074 \<in> \<int> \<and>
     secondsLeft s = max 0 \<lceil>sub64 (of_int (totalSecondsRef s)) (elapsed s)\<rceil> \<and>
     (case rafRef s of
        None \<Rightarrow> \<not> running s \<and> rafCallbacks s = []
      | Some h \<Rightarrow> rafCallbacks s = (if running s then [h] else []))"

section \<open>Properties\<close>

subsection \<open>Rounding to the nearest double\<close>

lemma roundTiesToEven_of_int: "roundTiesToEven (of_int n) = n"
  by (simp add: roundTiesToEven_def)

lemma roundTiesToEven_bounds:
  "\<lfloor>z\<rfloor> \<le> roundTiesToEven z \<and> roundTiesToEven z \<le> \<lfloor>z\<rfloor> + 1"
  by (simp add: roundTiesToEven_def Let_def)

lemma roundTiesToEven_mono:
  assumes "z \<le> w"
  shows "roundTiesToEven z \<le> roundTiesToEven w"
proof (cases "\<lfloor>z\<rfloor> = \<lfloor>w\<rfloor>")
  case True
  with assms show ?thesis by (auto simp: roundTiesToEven_def Let_def)
next
  case False
  with assms have "\<lfloor>z\<rfloor> + 1 \<le> \<lfloor>w\<rfloor>" using floor_mono [OF assms] by linarith
  then show ?thesis
    using roundTiesToEven_bounds [of z] roundTiesToEven_bounds [of w] by linarith
qed

lemma roundTiesToEven_le: "z \<le> of_int n \<Longrightarrow> roundTiesToEven z \<le> n"
  using roundTiesToEven_mono [of z "of_int n"] by (simp add: roundTiesToEven_of_int)

lemma roundTiesToEven_ge: "of_int n \<le> z \<Longrightarrow> n \<le> roundTiesToEven z"
  using roundTiesToEven_mono [of "of_int n" z] by (simp add: roundTiesToEven_of_int)


lemma binade:
  assumes "x \<noteq> 0"
  shows "2 powi \<lfloor>log 2 \<bar>x\<bar>\<rfloor> \<le> \<bar>x\<bar>" and "\<bar>x\<bar> < 2 powi (\<lfloor>log 2 \<bar>x\<bar>\<rfloor> + 1)"
proof -
  have pos: "0 < \<bar>x\<bar>" using assms by simp
  have "(2::real) powr real_of_int \<lfloor>log 2 \<bar>x\<bar>\<rfloor> \<le> \<bar>x\<bar> \<and>
        \<bar>x\<bar> < 2 powr (real_of_int \<lfloor>log 2 \<bar>x\<bar>\<rfloor> + 1)"
    using floor_log_eq_powr_iff [of "\<bar>x\<bar>" 2 "\<lfloor>log 2 \<bar>x\<bar>\<rfloor>"] pos by simp
  moreover have "(2::real) powr (real_of_int \<lfloor>log 2 \<bar>x\<bar>\<rfloor> + 1) = 2 powi (\<lfloor>log 2 \<bar>x\<bar>\<rfloor> + 1)"
    using powr_real_of_int' [of 2 "\<lfloor>log 2 \<bar>x\<bar>\<rfloor> + 1"] by simp
  moreover have "(2::real) powr real_of_int \<lfloor>log 2 \<bar>x\<bar>\<rfloor> = 2 powi \<lfloor>log 2 \<bar>x\<bar>\<rfloor>"
    using powr_real_of_int' [of 2 "\<lfloor>log 2 \<bar>x\<bar>\<rfloor>"] by simp
  ultimately show "2 powi \<lfloor>log 2 \<bar>x\<bar>\<rfloor> \<le> \<bar>x\<bar>" and "\<bar>x\<bar> < 2 powi (\<lfloor>log 2 \<bar>x\<bar>\<rfloor> + 1)"
    by simp_all
qed

lemma binade_unique:
  assumes "x \<noteq> 0" "2 powi e \<le> \<bar>x\<bar>" "\<bar>x\<bar> < 2 powi (e + 1)"
  shows "\<lfloor>log 2 \<bar>x\<bar>\<rfloor> = e"
proof -
  have pos: "0 < \<bar>x\<bar>" using assms(1) by simp
  have "(2::real) powr real_of_int e = 2 powi e"
    using powr_real_of_int' [of 2 e] by simp
  moreover have "(2::real) powr (real_of_int e + 1) = 2 powi (e + 1)"
    using powr_real_of_int' [of 2 "e + 1"] by simp
  ultimately show ?thesis
    using floor_log_eq_powr_iff [of "\<bar>x\<bar>" 2 e] pos assms(2,3) by simp
qed

lemma pow2_pos: "0 < (2::real) powi e"
  by (simp add: power_int_def)

lemma pow2_mono: "a \<le> b \<Longrightarrow> (2::real) powi a \<le> 2 powi b"
  by (rule power_int_increasing) simp_all

lemma pow2_int:
  assumes "0 \<le> k"
  shows "(2::real) powi k = of_int (2 ^ nat k)"
  using assms by (simp add: power_int_def)

lemma pow2_add: "(2::real) powi (a + b) = 2 powi a * 2 powi b"
  by (simp add: power_int_add)

lemma pow2_less_imp: "(2::real) powi a < 2 powi b \<Longrightarrow> a < b"
  using pow2_mono [of b a] by (cases "a < b") simp_all

lemma ulp_exponent_eval:
  assumes "x \<noteq> 0" "2 powi e \<le> \<bar>x\<bar>" "\<bar>x\<bar> < 2 powi (e + 1)"
  shows "ulp_exponent x = max (e - 52) (- 1074)"
  using binade_unique [OF assms] by (simp add: ulp_exponent_def)

lemma double_eval:
  assumes "x \<noteq> 0" "2 powi e \<le> \<bar>x\<bar>" "\<bar>x\<bar> < 2 powi (e + 1)"
  shows "double x =
           of_int (roundTiesToEven (x / 2 powi max (e - 52) (- 1074))) *
           2 powi max (e - 52) (- 1074)"
  using assms(1) ulp_exponent_eval [OF assms] by (simp add: double_def)

lemma double_zero [simp]: "double 0 = 0"
  by (simp add: double_def)

lemma double_representable:
  assumes "x = of_int m * 2 powi q" "\<bar>m\<bar> < 2 ^ 53" "- 1074 \<le> q"
  shows "double x = x"
proof (cases "x = 0")
  case True
  then show ?thesis by simp
next
  case False
  define e where "e = \<lfloor>log 2 \<bar>x\<bar>\<rfloor>"
  define u where "u = ulp_exponent x"
  have "\<bar>x\<bar> = of_int \<bar>m\<bar> * 2 powi q"
    using assms(1) pow2_pos [of q] by (simp add: abs_mult)
  also have "\<dots> < 2 ^ 53 * 2 powi q"
  proof -
    have "real_of_int \<bar>m\<bar> < 2 ^ 53" using assms(2) by (metis of_int_less_numeral_power_cancel_iff)
    then show ?thesis using pow2_pos [of q] by simp
  qed
  also have "\<dots> = 2 powi (53 + q)" by (simp add: power_int_add)
  finally have "\<bar>x\<bar> < 2 powi (53 + q)" .
  then have "2 powi e < (2::real) powi (53 + q)"
    using binade(1) [OF False] unfolding e_def by linarith
  then have "e - 52 \<le> q" using pow2_less_imp by force
  then have uq: "u \<le> q" using assms(3) by (simp add: u_def e_def ulp_exponent_def)
  have "(2::real) powi q = 2 powi (q - u) * 2 powi u"
    by (simp flip: power_int_add)
  then have "x = of_int m * 2 powi (q - u) * 2 powi u"
    using assms(1) by simp
  then have "x / 2 powi u = of_int m * 2 powi (q - u)"
    using pow2_pos [of u] by (simp add: field_simps)
  also have "\<dots> = of_int (m * 2 ^ nat (q - u))" using uq by (simp add: pow2_int)
  finally have "roundTiesToEven (x / 2 powi u) = m * 2 ^ nat (q - u)"
    by (simp only: roundTiesToEven_of_int)
  then have "double x = of_int (m * 2 ^ nat (q - u)) * 2 powi u"
    using False by (simp add: double_def u_def)
  also have "\<dots> = of_int m * (2 powi (q - u) * 2 powi u)"
    using uq by (simp add: pow2_int)
  also have "\<dots> = x" using assms(1) by (simp flip: power_int_add)
  finally show ?thesis .
qed

lemma double_of_int:
  assumes "\<bar>n\<bar> < 2 ^ 53"
  shows "double (of_int n) = of_int n"
  using double_representable [of "of_int n" n 0] assms by simp

lemma double_nonneg:
  assumes "0 \<le> x"
  shows "0 \<le> double x"
proof (cases "x = 0")
  case True
  then show ?thesis by simp
next
  case False
  have "0 \<le> x / 2 powi ulp_exponent x" using assms pow2_pos [of "ulp_exponent x"] by simp
  then have "0 \<le> roundTiesToEven (x / 2 powi ulp_exponent x)"
    using roundTiesToEven_ge [of 0] by simp
  then show ?thesis using False pow2_pos [of "ulp_exponent x"] by (simp add: double_def)
qed

lemma double_mono_pos:
  assumes "0 < x" "x \<le> y"
  shows "double x \<le> double y"
proof -
  let ?ex = "\<lfloor>log 2 \<bar>x\<bar>\<rfloor>" and ?ey = "\<lfloor>log 2 \<bar>y\<bar>\<rfloor>"
  let ?ux = "ulp_exponent x" and ?uy = "ulp_exponent y"
  have x0: "x \<noteq> 0" and y0: "y \<noteq> 0" and ax: "\<bar>x\<bar> = x" and ay: "\<bar>y\<bar> = y"
    using assms by simp_all
  have bx: "2 powi ?ex \<le> x" "x < 2 powi (?ex + 1)" using binade [OF x0] ax by simp_all
  have hy: "2 powi ?ey \<le> y" "y < 2 powi (?ey + 1)" using binade [OF y0] ay by simp_all
  have "2 powi ?ex < (2::real) powi (?ey + 1)" using bx(1) hy(2) assms(2) by linarith
  then have e: "?ex \<le> ?ey" using pow2_less_imp by force
  then have u: "?ux \<le> ?uy" by (simp add: ulp_exponent_def)
  have dx: "double x = of_int (roundTiesToEven (x / 2 powi ?ux)) * 2 powi ?ux"
    using x0 by (simp add: double_def)
  have dy: "double y = of_int (roundTiesToEven (y / 2 powi ?uy)) * 2 powi ?uy"
    using y0 by (simp add: double_def)
  show ?thesis
  proof (cases "?ux = ?uy")
    case True
    have "x / 2 powi ?ux \<le> y / 2 powi ?ux"
      using assms(2) pow2_pos [of ?ux] by (simp add: divide_right_mono)
    then have "roundTiesToEven (x / 2 powi ?ux) \<le> roundTiesToEven (y / 2 powi ?ux)"
      by (rule roundTiesToEven_mono)
    then have "real_of_int (roundTiesToEven (x / 2 powi ?ux)) * 2 powi ?ux \<le>
               real_of_int (roundTiesToEven (y / 2 powi ?ux)) * 2 powi ?ux"
      using pow2_pos [of ?ux] by simp
    then show ?thesis using dx dy True by simp
  next
    case False
    with u have lt: "?ux < ?uy" by simp
    then have uy: "?uy = ?ey - 52" and "?ex - 52 < ?uy"
      by (simp_all add: ulp_exponent_def max_def split: if_splits)
    then have exy: "?ex + 1 \<le> ?ey" by simp
    have k: "0 \<le> ?ey - ?ux" using lt uy by simp
    have "x < 2 powi ?ey" using bx(2) pow2_mono [OF exy] by linarith
    also have "\<dots> = 2 powi (?ey - ?ux) * 2 powi ?ux" by (simp flip: power_int_add)
    finally have "x / 2 powi ?ux \<le> 2 powi (?ey - ?ux)"
      using pow2_pos [of ?ux] by (simp add: field_simps)
    then have "x / 2 powi ?ux \<le> of_int (2 ^ nat (?ey - ?ux))"
      using k by (simp only: pow2_int)
    then have "roundTiesToEven (x / 2 powi ?ux) \<le> 2 ^ nat (?ey - ?ux)"
      by (rule roundTiesToEven_le)
    then have "real_of_int (roundTiesToEven (x / 2 powi ?ux)) \<le> of_int (2 ^ nat (?ey - ?ux))"
      by (simp only: of_int_le_iff)
    then have "real_of_int (roundTiesToEven (x / 2 powi ?ux)) \<le> 2 powi (?ey - ?ux)"
      using k by (simp only: pow2_int)
    then have "double x \<le> 2 powi (?ey - ?ux) * 2 powi ?ux"
      using dx pow2_pos [of ?ux] by simp
    then have upper: "double x \<le> 2 powi ?ey" by (simp flip: power_int_add)
    have split: "(2::real) powi ?ey = 2 powi 52 * 2 powi ?uy"
      using uy pow2_add [of 52 "?ey - 52"] by simp
    then have "2 powi 52 \<le> y / 2 powi ?uy"
      using hy(1) pow2_pos [of ?uy] by (simp add: field_simps)
    then have "of_int (2 ^ 52) \<le> y / 2 powi ?uy" by simp
    then have "2 ^ 52 \<le> roundTiesToEven (y / 2 powi ?uy)"
      by (rule roundTiesToEven_ge)
    then have "real_of_int (2 ^ 52) \<le> real_of_int (roundTiesToEven (y / 2 powi ?uy))"
      by (simp only: of_int_le_iff)
    then have "2 powi 52 * 2 powi ?uy \<le> double y"
      using dy pow2_pos [of ?uy] by simp
    then have "2 powi ?ey \<le> double y" by (simp only: split)
    with upper show ?thesis by linarith
  qed
qed

lemma double_mono_nonneg:
  assumes "0 \<le> x" "x \<le> y"
  shows "double x \<le> double y"
proof (cases "x = 0")
  case True
  then show ?thesis using assms double_nonneg [of y] by simp
next
  case False
  then show ?thesis using assms double_mono_pos by simp
qed


lemma double_grid: "double x * 2 ^ 1074 \<in> \<int>"
proof (cases "x = 0")
  case True
  then show ?thesis by simp
next
  case False
  let ?u = "ulp_exponent x"
  have u: "0 \<le> ?u + 1074" by (simp add: ulp_exponent_def)
  have "(2::real) powi ?u * 2 ^ 1074 = 2 powi (?u + 1074)" by (simp add: power_int_add)
  also have "\<dots> = of_int (2 ^ nat (?u + 1074))" using u by (simp only: pow2_int)
  finally have "double x * 2 ^ 1074 =
      of_int (roundTiesToEven (x / 2 powi ?u) * 2 ^ nat (?u + 1074))"
    using False by (simp add: double_def)
  then show ?thesis by (simp only: Ints_of_int)
qed

text \<open>
  Evaluation at a concrete value: the exponent is fixed by the two neighbouring powers of
  two that enclose the value, and the rounded quotient is computed by the simplifier.
\<close>

lemma double_at:
  assumes "x \<noteq> 0" "2 powi e \<le> \<bar>x\<bar>" "\<bar>x\<bar> < 2 powi (e + 1)"
    and "roundTiesToEven (x / 2 powi max (e - 52) (- 1074)) = m"
  shows "double x = of_int m * 2 powi max (e - 52) (- 1074)"
  using double_eval [OF assms(1,2,3)] assms(4) by simp

lemma double_numeral:
  assumes "(numeral n :: int) < 2 ^ 53"
  shows "double (numeral n) = numeral n"
  using double_of_int [of "numeral n"] assms by simp

lemma double_smallest: "double (2 powi (- 1074)) = 2 powi (- 1074)"
  using double_representable [of "2 powi (- 1074)" 1 "- 1074"] by simp

subsection \<open>The invariant\<close>

lemmas handler_defs =
  setSelectedMinutes_def selectedMinutesEffect_def afterRender_def runningEffect_def
  runningCleanup_def cancelAnimationFrame_def requestAnimationFrame_def startStop_def
  resetTimer_def frame_def tick_def triggerCelebration_def

lemma DURATIONS_bounds: "d \<in> set DURATIONS \<Longrightarrow> 0 < d * 60 \<and> d * 60 \<le> 7200"
  by (auto simp: DURATIONS_def)

lemma sub64_total_zero:
  assumes "0 \<le> T" "T \<le> 7200"
  shows "sub64 (real_of_int T) 0 = real_of_int T"
proof -
  have "\<bar>T\<bar> < 2 ^ 53" using assms by simp
  then show ?thesis by (simp add: sub64_def double_of_int)
qed

lemma timer_inv_fresh:
  assumes "selectedMinutes s \<in> set DURATIONS" "totalSecondsRef s = selectedMinutes s * 60"
    "elapsed s = 0" "secondsLeft s = selectedMinutes s * 60" "\<not> running s" "rafCallbacks s = []"
  shows "timer_inv s"
proof -
  have T: "0 \<le> totalSecondsRef s" "totalSecondsRef s \<le> 7200"
    using assms(1,2) DURATIONS_bounds [of "selectedMinutes s"] by simp_all
  then have "sub64 (real_of_int (totalSecondsRef s)) 0 = real_of_int (totalSecondsRef s)"
    by (rule sub64_total_zero)
  then have "max 0 \<lceil>sub64 (of_int (totalSecondsRef s)) (elapsed s)\<rceil> = totalSecondsRef s"
    using T(1) assms(3) by simp
  then have a: "secondsLeft s = max 0 \<lceil>sub64 (of_int (totalSecondsRef s)) (elapsed s)\<rceil>"
    using assms(2,4) by simp
  have b: "0 \<le> elapsed s" "elapsed s \<le> of_int (totalSecondsRef s)"
    "elapsed s * 2 ^ 1074 \<in> \<int>"
    using assms(3) T(1) by simp_all
  have c: "case rafRef s of None \<Rightarrow> \<not> running s \<and> rafCallbacks s = []
           | Some h \<Rightarrow> rafCallbacks s = (if running s then [h] else [])"
    using assms(5,6) by (simp split: option.splits)
  show ?thesis unfolding timer_inv_def using assms(1,2) a b c by blast
qed

lemma timer_inv_init: "timer_inv init"
  by (rule timer_inv_fresh) (simp_all add: init_def DURATIONS_def)

lemma queue_cases:
  assumes "timer_inv s"
  shows "(running s \<and> (\<exists>h. rafRef s = Some h \<and> rafCallbacks s = [h])) \<or>
         (\<not> running s \<and> rafCallbacks s = [])"
  using assms by (auto simp: timer_inv_def split: option.splits if_splits)

lemma timer_inv_duration:
  assumes "timer_inv s" "d \<in> set DURATIONS"
  shows "timer_inv (setSelectedMinutes d s)"
proof (cases "d = selectedMinutes s")
  case True
  then show ?thesis using assms by (simp add: setSelectedMinutes_def)
next
  case False
  let ?s' = "setSelectedMinutes d s"
  from queue_cases [OF assms(1)] False
  have "selectedMinutes ?s' = d \<and> totalSecondsRef ?s' = d * 60 \<and> elapsed ?s' = 0 \<and>
        secondsLeft ?s' = d * 60 \<and> \<not> running ?s' \<and> rafCallbacks ?s' = []"
    by (auto simp: handler_defs split: option.splits)
  then show ?thesis using assms(2) by (intro timer_inv_fresh) simp_all
qed

lemma timer_inv_reset:
  assumes "timer_inv s"
  shows "timer_inv (afterRender c s (resetTimer s))"
proof -
  let ?s' = "afterRender c s (resetTimer s)"
  from queue_cases [OF assms]
  have "selectedMinutes ?s' = selectedMinutes s \<and> totalSecondsRef ?s' = totalSecondsRef s \<and>
        elapsed ?s' = 0 \<and> secondsLeft ?s' = selectedMinutes s * 60 \<and> \<not> running ?s' \<and>
        rafCallbacks ?s' = []"
    by (auto simp: handler_defs split: option.splits)
  then show ?thesis using assms by (intro timer_inv_fresh) (simp_all add: timer_inv_def)
qed

lemma timer_inv_startStop:
  assumes "timer_inv s"
  shows "timer_inv (afterRender c s (startStop s))"
proof -
  let ?s' = "afterRender c s (startStop s)"
  have keep: "selectedMinutes ?s' = selectedMinutes s \<and> totalSecondsRef ?s' = totalSecondsRef s \<and>
        elapsed ?s' = elapsed s \<and> secondsLeft ?s' = secondsLeft s"
    by (auto simp: handler_defs split: option.splits)
  from queue_cases [OF assms]
  have "case rafRef ?s' of None \<Rightarrow> \<not> running ?s' \<and> rafCallbacks ?s' = []
        | Some h \<Rightarrow> rafCallbacks ?s' = (if running ?s' then [h] else [])"
    by (auto simp: handler_defs split: option.splits)
  then show ?thesis using assms keep unfolding timer_inv_def by simp
qed

lemma frame_idle: "rafCallbacks s = [] \<Longrightarrow> frame now s = s"
  by (simp add: frame_def)

lemma elapsedSec_queue [simp]: "elapsedSec now (s\<lparr>rafCallbacks := q\<rparr>) = elapsedSec now s"
  by (simp add: elapsedSec_def)

lemma frame_finish:
  assumes "running s" "rafCallbacks s = [h]" "of_int (totalSecondsRef s) \<le> elapsedSec now s"
  shows "frame now s =
           s\<lparr>rafCallbacks := [], elapsed := of_int (totalSecondsRef s), secondsLeft := 0,
             running := False, sessionsCompleted := sessionsCompleted s + 1,
             celebrate := True\<rparr>"
  using assms by (simp add: handler_defs Let_def split: option.splits)

lemma frame_continue:
  assumes "running s" "rafCallbacks s = [h]" "\<not> of_int (totalSecondsRef s) \<le> elapsedSec now s"
  shows "frame now s =
           s\<lparr>rafCallbacks := [rafNextHandle s], rafRef := Some (rafNextHandle s),
             rafNextHandle := rafNextHandle s + 1, elapsed := elapsedSec now s,
             secondsLeft := max 0 \<lceil>sub64 (of_int (totalSecondsRef s)) (elapsedSec now s)\<rceil>\<rparr>"
  using assms by (simp add: handler_defs Let_def split: option.splits)

lemma elapsedSec_nonneg: "0 \<le> elapsedSec now s"
  by (simp add: elapsedSec_def)

lemma elapsedSec_grid: "elapsedSec now s * 2 ^ 1074 \<in> \<int>"
proof -
  have "elapsedSec now s = 0 \<or> (\<exists>x. elapsedSec now s = double x)"
    by (auto simp: elapsedSec_def div64_def max_def)
  then show ?thesis using double_grid by auto
qed

lemma timer_inv_frame:
  assumes "timer_inv s"
  shows "timer_inv (frame now s)"
proof -
  from queue_cases [OF assms] consider
    (idle) "rafCallbacks s = []"
    | (busy) h where "running s" "rafCallbacks s = [h]" by blast
  then show ?thesis
  proof cases
    case idle
    then show ?thesis using assms by (simp add: frame_idle)
  next
    case busy
    show ?thesis
    proof (cases "of_int (totalSecondsRef s) \<le> elapsedSec now s")
      case True
      have "0 \<le> real_of_int (totalSecondsRef s)" using assms by (simp add: timer_inv_def)
      moreover have "real_of_int (totalSecondsRef s) * 2 ^ 1074 \<in> \<int>"
        by (metis Ints_of_int of_int_mult of_int_numeral of_int_power)
      ultimately show ?thesis using assms
        by (simp add: frame_finish [OF busy True] timer_inv_def sub64_def split: option.splits)
    next
      case False
      then show ?thesis using assms busy elapsedSec_nonneg [of now s] elapsedSec_grid [of now s]
        by (simp add: frame_continue [OF busy False] timer_inv_def)
    qed
  qed
qed

lemma timer_inv_step: "timer_inv s \<Longrightarrow> timer_inv (step e s)"
proof (cases e)
  case (ClickDuration d)
  assume "timer_inv s"
  then show ?thesis using ClickDuration by (simp add: timer_inv_duration)
next
  case (ClickStartStop c)
  assume "timer_inv s"
  then show ?thesis using ClickStartStop by (simp add: timer_inv_startStop)
next
  case ClickReset
  assume "timer_inv s"
  then show ?thesis using ClickReset by (simp add: timer_inv_reset)
next
  case (Frame now)
  assume "timer_inv s"
  then show ?thesis using Frame by (simp add: timer_inv_frame)
qed (simp_all add: timer_inv_def addTask_def toggleTask_def split: option.splits del: BREAK_RECOMMENDATIONS.simps)

lemma run_snoc: "run (es @ [e]) = step e (run es)"
  by (simp add: run_def)

lemma timer_inv_run: "timer_inv (run es)"
proof (induction es rule: rev_induct)
  case Nil
  show ?case by (simp add: run_def timer_inv_init)
next
  case (snoc e es)
  then show ?case by (simp add: run_snoc timer_inv_step)
qed

subsection \<open>The timer\<close>

lemma ceiling_double_upper:
  assumes "0 \<le> x" "x \<le> 7200"
  shows "\<lceil>double x\<rceil> \<le> \<lceil>x\<rceil>"
proof -
  have "\<lceil>x\<rceil> \<le> 7200" using assms(2) by (simp add: ceiling_le_iff)
  moreover have "0 \<le> \<lceil>x\<rceil>" using assms(1) by simp
  ultimately have "\<bar>\<lceil>x\<rceil>\<bar> < 2 ^ 53" by simp
  then have "double (of_int \<lceil>x\<rceil>) = of_int \<lceil>x\<rceil>" by (rule double_of_int)
  moreover have "double x \<le> double (of_int \<lceil>x\<rceil>)"
    using assms(1) by (intro double_mono_nonneg) simp_all
  ultimately show ?thesis by (simp add: ceiling_le_iff)
qed

lemma ceiling_double_lower:
  assumes "0 \<le> x" "x \<le> 7200"
  shows "\<lceil>x\<rceil> - 1 \<le> \<lceil>double x\<rceil>"
proof (cases "\<lceil>x\<rceil> \<le> 0")
  case True
  have "0 \<le> double x" using assms(1) by (rule double_nonneg)
  then have "0 \<le> \<lceil>double x\<rceil>" by simp
  then show ?thesis using True by linarith
next
  case False
  then have n: "0 \<le> \<lceil>x\<rceil> - 1" by simp
  have "\<lceil>x\<rceil> \<le> 7200" using assms(2) by (simp add: ceiling_le_iff)
  then have "\<bar>\<lceil>x\<rceil> - 1\<bar> < 2 ^ 53" using n by simp
  then have "double (of_int (\<lceil>x\<rceil> - 1)) = of_int (\<lceil>x\<rceil> - 1)" by (rule double_of_int)
  moreover have "of_int (\<lceil>x\<rceil> - 1) \<le> x" by linarith
  then have "double (of_int (\<lceil>x\<rceil> - 1)) \<le> double x"
    using n by (intro double_mono_nonneg) simp_all
  ultimately have "of_int (\<lceil>x\<rceil> - 1) \<le> double x" by simp
  then show ?thesis by (simp add: le_ceiling_iff)
qed

lemma double_pos_on_grid:
  assumes "0 < x" "x * 2 ^ 1074 \<in> \<int>"
  shows "0 < double x"
proof -
  define g :: real where "g = 2 ^ 1074"
  have g: "0 < g" by (simp add: g_def)
  from assms(2) obtain k :: int where k: "x * g = of_int k"
    unfolding g_def by (auto elim: Ints_cases)
  have "0 < x * g" using assms(1) g by simp
  then have "1 \<le> k" using k by simp
  then have "1 \<le> x * g" using k by simp
  then have "1 / g \<le> x" using g by (simp add: field_simps)
  moreover have "1 / g = 2 powi (- 1074)" by (simp add: g_def power_int_minus field_simps)
  ultimately have le: "2 powi (- 1074) \<le> x" by simp
  have "double (2 powi (- 1074)) \<le> double x"
    using pow2_pos [of "- 1074"] le by (rule double_mono_pos)
  then show ?thesis using double_smallest pow2_pos [of "- 1074"] by linarith
qed

text \<open>
  Claim C2, as amended. In every state the component reaches, with total seconds \<open>T\<close> and
  elapsed seconds \<open>E\<close>, the remaining seconds shown are \<open>max 0 \<lceil>d\<rceil>\<close> where \<open>d\<close> is the
  binary64 difference of \<open>T\<close> and \<open>E\<close>, that is \<open>T - E\<close> rounded to the nearest double; they
  are never negative, never exceed the true remaining time rounded up and fall short of it
  by at most one, and are 0 exactly when \<open>E \<ge> T\<close>.
\<close>

theorem remaining_seconds_display_rounded:
  "secondsLeft (run es) =
     max 0 \<lceil>sub64 (of_int (totalSecondsRef (run es))) (elapsed (run es))\<rceil> \<and>
   0 \<le> secondsLeft (run es) \<and>
   secondsLeft (run es) \<le> \<lceil>of_int (totalSecondsRef (run es)) - elapsed (run es)\<rceil> \<and>
   \<lceil>of_int (totalSecondsRef (run es)) - elapsed (run es)\<rceil> - 1 \<le> secondsLeft (run es) \<and>
   (secondsLeft (run es) = 0 \<longleftrightarrow> of_int (totalSecondsRef (run es)) \<le> elapsed (run es))"
proof -
  define T where "T = real_of_int (totalSecondsRef (run es))"
  define E where "E = elapsed (run es)"
  have inv: "timer_inv (run es)" by (rule timer_inv_run)
  then have le: "E \<le> T" and E0: "0 \<le> E" and grid: "E * 2 ^ 1074 \<in> \<int>"
    and eq: "secondsLeft (run es) = max 0 \<lceil>sub64 T E\<rceil>"
    and sel: "selectedMinutes (run es) \<in> set DURATIONS"
      "totalSecondsRef (run es) = selectedMinutes (run es) * 60"
    by (simp_all add: timer_inv_def T_def E_def)
  have "T \<le> 7200" using sel DURATIONS_bounds [of "selectedMinutes (run es)"] by (simp add: T_def)
  then have x: "0 \<le> T - E" "T - E \<le> 7200" using le E0 by simp_all
  have up: "\<lceil>double (T - E)\<rceil> \<le> \<lceil>T - E\<rceil>" using x by (rule ceiling_double_upper)
  have low: "\<lceil>T - E\<rceil> - 1 \<le> \<lceil>double (T - E)\<rceil>" using x by (rule ceiling_double_lower)
  have nn: "0 \<le> \<lceil>T - E\<rceil>" using x(1) by simp
  have zero: "max 0 \<lceil>double (T - E)\<rceil> = 0 \<longleftrightarrow> T \<le> E"
  proof (cases "T \<le> E")
    case True
    with le have "T - E = 0" by simp
    then show ?thesis using True by simp
  next
    case False
    then have pos: "0 < T - E" by simp
    have "T * 2 ^ 1074 \<in> \<int>"
      unfolding T_def by (metis Ints_of_int of_int_mult of_int_numeral of_int_power)
    then have "T * 2 ^ 1074 - E * 2 ^ 1074 \<in> \<int>" using grid by (rule Ints_diff)
    then have "(T - E) * 2 ^ 1074 \<in> \<int>" by (simp only: left_diff_distrib)
    with pos have "0 < double (T - E)" by (rule double_pos_on_grid)
    then have "0 < \<lceil>double (T - E)\<rceil>" by simp
    then have "max 0 \<lceil>double (T - E)\<rceil> \<noteq> 0" by linarith
    then show ?thesis using False by blast
  qed
  show ?thesis
    using eq up low nn zero unfolding sub64_def T_def E_def by simp
qed

lemma first_frame_difference:
  assumes "a = 2252019716010803 / 2 ^ 41" "b = 3391773469363405 / 2 ^ 47"
  shows "sub64 a b = 1000 - 1 / 2 ^ 43"
proof -
  have "double ((2252019716010803 / 2 ^ 41) - (3391773469363405 / 2 ^ 47)) = of_int 8796093022207999 * 2 powi max (9 - 52) (- 1074)"
    by (rule double_at) (simp_all add: power_int_minus roundTiesToEven_def Let_def)
  then show ?thesis unfolding assms by (simp add: sub64_def power_int_minus)
qed

lemma first_frame_quotient:
  assumes "a = 1000 - 1 / 2 ^ 43" "b = 1000"
  shows "div64 a b = 1 - 1 / 2 ^ 53"
proof -
  have "double ((1000 - 1 / 2 ^ 43) / (1000)) = of_int 9007199254740991 * 2 powi max (- 1 - 52) (- 1074)"
    by (rule double_at) (simp_all add: power_int_minus roundTiesToEven_def Let_def)
  then show ?thesis unfolding assms by (simp add: div64_def power_int_minus)
qed

lemma first_frame_remaining:
  assumes "a = 1800" "b = 1 - 1 / 2 ^ 53"
  shows "sub64 a b = 1799"
proof -
  have "double ((1800) - (1 - 1 / 2 ^ 53)) = of_int 7912085673476096 * 2 powi max (10 - 52) (- 1074)"
    by (rule double_at) (simp_all add: power_int_minus roundTiesToEven_def Let_def)
  then show ?thesis unfolding assms by (simp add: sub64_def power_int_minus)
qed

lemma start_armed:
  assumes "\<not> running s" "rafCallbacks s = []"
  shows "step (ClickStartStop c) s =
           s\<lparr>running := True,
             startTimestampRef := Some (sub64 c (mul64 (elapsed s) 1000)),
             rafRef := Some (rafNextHandle s), rafCallbacks := [rafNextHandle s],
             rafNextHandle := rafNextHandle s + 1\<rparr>"
  using assms by (simp add: handler_defs)

lemma run_Cons_after: "run (es @ e # es') = fold step es' (step e (run es))"
  by (simp add: run_def)

lemma elapsedSec_anchor:
  "startTimestampRef s = Some a \<Longrightarrow> elapsedSec now s = max 0 (div64 (sub64 now a) 1000)"
  by (simp add: elapsedSec_def)

text \<open>
  Claim C2 as stated, with the exact difference \<open>T - E\<close> under the ceiling, fails: the
  timer is started when \<^verbatim>\<open>performance.now()\<close> reads 24.1 and the first frame has time
  stamp 1024.1 (the doubles so written). The elapsed time is then the double just below 1,
  the remaining seconds shown are 1799, and the exact ceiling is 1800.
\<close>

theorem remaining_seconds_not_exact_ceiling:
  "secondsLeft (run [ClickStartStop (3391773469363405 / 2 ^ 47), Frame (2252019716010803 / 2 ^ 41)]) \<noteq>
     max 0 \<lceil>of_int (totalSecondsRef (run [ClickStartStop (3391773469363405 / 2 ^ 47), Frame (2252019716010803 / 2 ^ 41)])) -
            elapsed (run [ClickStartStop (3391773469363405 / 2 ^ 47), Frame (2252019716010803 / 2 ^ 41)])\<rceil>"
proof -
  define c :: real where "c = 3391773469363405 / 2 ^ 47"
  define n :: real where "n = 2252019716010803 / 2 ^ 41"
  define s1 where "s1 = step (ClickStartStop c) init"
  have "\<not> running init" "rafCallbacks init = []" by (simp_all add: init_def)
  then have "s1 = init\<lparr>running := True,
      startTimestampRef := Some (sub64 c (mul64 (elapsed init) 1000)),
      rafRef := Some (rafNextHandle init), rafCallbacks := [rafNextHandle init],
      rafNextHandle := rafNextHandle init + 1\<rparr>"
    unfolding s1_def by (rule start_armed)
  then have s1: "running s1" "rafCallbacks s1 = [rafNextHandle init]"
    "totalSecondsRef s1 = 1800"
    "startTimestampRef s1 = Some (sub64 c (mul64 0 1000))"
    by (simp_all add: init_def)
  have "double c = c"
    unfolding c_def by (rule double_representable [of _ 3391773469363405 "- 47"]) (simp_all add: power_int_minus)
  then have anchor: "sub64 c (mul64 0 1000) = c" by (simp add: sub64_def mul64_def)
  have d: "sub64 n c = 1000 - 1 / 2 ^ 43"
    by (rule first_frame_difference) (simp_all add: n_def c_def)
  have q: "div64 (sub64 n c) 1000 = 1 - 1 / 2 ^ 53"
    by (rule first_frame_quotient [OF d]) simp
  have "elapsedSec n s1 = max 0 (div64 (sub64 n c) 1000)"
    using s1(4) anchor by (simp add: elapsedSec_anchor)
  then have e: "elapsedSec n s1 = 1 - 1 / 2 ^ 53" by (simp add: q)
  then have "\<not> of_int (totalSecondsRef s1) \<le> elapsedSec n s1" using s1(3) by simp
  from frame_continue [OF s1(1,2) this]
  have fc: "frame n s1 = s1\<lparr>rafCallbacks := [rafNextHandle s1],
      rafRef := Some (rafNextHandle s1), rafNextHandle := rafNextHandle s1 + 1,
      elapsed := elapsedSec n s1,
      secondsLeft := max 0 \<lceil>sub64 (of_int (totalSecondsRef s1)) (elapsedSec n s1)\<rceil>\<rparr>" .
  have r: "sub64 (of_int (totalSecondsRef s1)) (elapsedSec n s1) = 1799"
    by (rule first_frame_remaining) (simp_all add: s1(3) e)
  have "secondsLeft (frame n s1) = max 0 \<lceil>sub64 (of_int (totalSecondsRef s1)) (elapsedSec n s1)\<rceil>"
    by (simp add: fc)
  then have shown: "secondsLeft (frame n s1) = 1799" by (simp only: r) simp
  have "of_int (totalSecondsRef (frame n s1)) - elapsed (frame n s1) =
        real_of_int (totalSecondsRef s1) - elapsedSec n s1"
    by (simp add: fc)
  also have "\<dots> = 1799 + 1 / 2 ^ 53" by (simp add: s1(3) e)
  finally have "\<lceil>of_int (totalSecondsRef (frame n s1)) - elapsed (frame n s1)\<rceil> = 1800"
    by (simp add: ceiling_eq_iff)
  then have "secondsLeft (frame n s1) \<noteq>
      max 0 \<lceil>of_int (totalSecondsRef (frame n s1)) - elapsed (frame n s1)\<rceil>"
    using shown by simp
  moreover have "run [ClickStartStop c, Frame n] = frame n s1"
    by (simp add: run_def s1_def)
  ultimately show ?thesis unfolding c_def n_def by simp
qed

lemma frames_idle: "rafCallbacks s = [] \<Longrightarrow> fold step (map Frame ts) s = s"
  by (induction ts) (simp_all add: frame_idle)


lemma frames_complete:
  assumes "running s" "rafCallbacks s = [h]" "startTimestampRef s = Some a"
    and "totalSecondsRef s = T" "sessionsCompleted s = n"
    and "\<exists>now \<in> set ts. of_int T \<le> max 0 (div64 (sub64 now a) 1000)"
  shows "\<not> running (fold step (map Frame ts) s) \<and>
         rafCallbacks (fold step (map Frame ts) s) = [] \<and>
         elapsed (fold step (map Frame ts) s) = of_int T \<and>
         secondsLeft (fold step (map Frame ts) s) = 0 \<and>
         sessionsCompleted (fold step (map Frame ts) s) = n + 1 \<and>
         totalSecondsRef (fold step (map Frame ts) s) = T"
  using assms
proof (induction ts arbitrary: s h)
  case Nil
  then show ?case by simp
next
  case (Cons now ts)
  have e: "elapsedSec now s = max 0 (div64 (sub64 now a) 1000)"
    using Cons.prems(3) by (rule elapsedSec_anchor)
  show ?case
  proof (cases "of_int (totalSecondsRef s) \<le> elapsedSec now s")
    case True
    let ?s1 = "frame now s"
    have s1: "?s1 = s\<lparr>rafCallbacks := [], elapsed := of_int (totalSecondsRef s),
        secondsLeft := 0, running := False, sessionsCompleted := sessionsCompleted s + 1,
        celebrate := True\<rparr>"
      using Cons.prems(1,2) True by (rule frame_finish)
    then have "rafCallbacks ?s1 = []" by simp
    then have "fold step (map Frame ts) ?s1 = ?s1" by (rule frames_idle)
    then have "fold step (map Frame (now # ts)) s = ?s1" by simp
    then show ?thesis using s1 Cons.prems(4,5) by simp
  next
    case False
    let ?s1 = "frame now s"
    have s1: "?s1 = s\<lparr>rafCallbacks := [rafNextHandle s], rafRef := Some (rafNextHandle s),
        rafNextHandle := rafNextHandle s + 1, elapsed := elapsedSec now s,
        secondsLeft := max 0 \<lceil>sub64 (of_int (totalSecondsRef s)) (elapsedSec now s)\<rceil>\<rparr>"
      using Cons.prems(1,2) False by (rule frame_continue)
    have later: "\<exists>now \<in> set ts. of_int T \<le> max 0 (div64 (sub64 now a) 1000)"
      using Cons.prems(4,6) False e by auto
    have "running ?s1" "rafCallbacks ?s1 = [rafNextHandle s]" "startTimestampRef ?s1 = Some a"
      "totalSecondsRef ?s1 = T" "sessionsCompleted ?s1 = n"
      using s1 Cons.prems by simp_all
    from Cons.IH [OF this later] show ?thesis by simp
  qed
qed

text \<open>
  Claim C1. Whenever the stopped timer is started (at clock reading \<open>clock\<close>) and then only
  animation frames follow, one of which has a time stamp at which the elapsed seconds, as
  \<open>tick\<close> computes them in binary64, reach the total: afterwards the timer is not running,
  the elapsed time is exactly the total, the remaining seconds are 0, and the session
  counter is one more than before the start. The frames after the completing one find the
  queue empty, since the completing call of \<open>tick\<close> schedules no further frame, so the
  counter is raised once and not again.
\<close>

theorem completion_counts_once:
  assumes "\<not> running (run es)"
    and "\<exists>now \<in> set ts. of_int (totalSecondsRef (run es)) \<le>
           max 0 (div64 (sub64 now (sub64 clock (mul64 (elapsed (run es)) 1000))) 1000)"
  shows "\<not> running (run (es @ ClickStartStop clock # map Frame ts)) \<and>
         elapsed (run (es @ ClickStartStop clock # map Frame ts)) =
           of_int (totalSecondsRef (run es)) \<and>
         secondsLeft (run (es @ ClickStartStop clock # map Frame ts)) = 0 \<and>
         sessionsCompleted (run (es @ ClickStartStop clock # map Frame ts)) =
           sessionsCompleted (run es) + 1 \<and>
         rafCallbacks (run (es @ ClickStartStop clock # map Frame ts)) = [] \<and>
         totalSecondsRef (run (es @ ClickStartStop clock # map Frame ts)) =
           totalSecondsRef (run es)"
proof -
  let ?s = "run es" and ?s1 = "step (ClickStartStop clock) (run es)"
  have "rafCallbacks ?s = []"
    using queue_cases [OF timer_inv_run [of es]] assms(1) by simp
  with assms(1) have s1: "?s1 =
      ?s\<lparr>running := True,
         startTimestampRef := Some (sub64 clock (mul64 (elapsed ?s) 1000)),
         rafRef := Some (rafNextHandle ?s), rafCallbacks := [rafNextHandle ?s],
         rafNextHandle := rafNextHandle ?s + 1\<rparr>"
    by (rule start_armed)
  have "running ?s1" "rafCallbacks ?s1 = [rafNextHandle ?s]"
    "startTimestampRef ?s1 = Some (sub64 clock (mul64 (elapsed ?s) 1000))"
    "totalSecondsRef ?s1 = totalSecondsRef ?s" "sessionsCompleted ?s1 = sessionsCompleted ?s"
    using s1 by simp_all
  from frames_complete [OF this assms(2)] show ?thesis
    by (simp add: run_Cons_after)
qed

theorem completion_counts_once_witness:
  "\<not> running (run []) \<and>
   (\<exists>now \<in> set [16, 1799990, 1800006, 1800022, 1800038].
      of_int (totalSecondsRef (run [])) \<le>
        max 0 (div64 (sub64 now (sub64 0 (mul64 (elapsed (run [])) 1000))) 1000)) \<and>
   \<not> running (run ([] @ ClickStartStop 0 # map Frame [16, 1799990, 1800006, 1800022, 1800038])) \<and>
   elapsed (run ([] @ ClickStartStop 0 # map Frame [16, 1799990, 1800006, 1800022, 1800038])) = 1800 \<and>
   secondsLeft (run ([] @ ClickStartStop 0 # map Frame [16, 1799990, 1800006, 1800022, 1800038])) = 0 \<and>
   sessionsCompleted (run ([] @ ClickStartStop 0 # map Frame [16, 1799990, 1800006, 1800022, 1800038])) = 1"
proof -
  have a: "\<not> running (run [])" by (simp add: run_def init_def)
  have c: "totalSecondsRef (run []) = 1800" "sessionsCompleted (run []) = 0"
    "elapsed (run []) = 0"
    by (simp_all add: run_def init_def)
  have "sub64 1800006 (sub64 0 (mul64 0 1000)) = 1800006"
    by (simp add: sub64_def mul64_def double_numeral)
  moreover have "double 1800 \<le> double (1800006 / 1000)"
    by (rule double_mono_nonneg) simp_all
  then have "1800 \<le> div64 1800006 1000" by (simp add: div64_def double_numeral)
  ultimately have "real_of_int (totalSecondsRef (run [])) \<le>
      max 0 (div64 (sub64 1800006 (sub64 0 (mul64 (elapsed (run [])) 1000))) 1000)"
    by (simp only: c)
  then have b: "\<exists>now \<in> set [16, 1799990, 1800006, 1800022, 1800038].
      of_int (totalSecondsRef (run [])) \<le>
        max 0 (div64 (sub64 now (sub64 0 (mul64 (elapsed (run [])) 1000))) 1000)"
    by (intro bexI [of _ 1800006]) simp_all
  show ?thesis using a b c(1,2) completion_counts_once [OF a b] by simp
qed











text \<open>
  Claim C4. In every state the component reaches, running or not, changing the selected
  duration to a different value \<open>D\<close> stops the frame loop (nothing is scheduled, and a
  frame changes nothing), sets the elapsed time to 0 and the remaining seconds to the new
  total \<open>D * 60\<close>, regenerates the productivity curve from \<open>D\<close>, and sets the break
  selection back to none.
\<close>

theorem duration_change_resets:
  assumes "D \<noteq> selectedMinutes (run es)"
  shows "selectedMinutes (setSelectedMinutes D (run es)) = D \<and>
         \<not> running (setSelectedMinutes D (run es)) \<and>
         rafCallbacks (setSelectedMinutes D (run es)) = [] \<and>
         frame now (setSelectedMinutes D (run es)) = setSelectedMinutes D (run es) \<and>
         elapsed (setSelectedMinutes D (run es)) = 0 \<and>
         totalSecondsRef (setSelectedMinutes D (run es)) = D * 60 \<and>
         secondsLeft (setSelectedMinutes D (run es)) = D * 60 \<and>
         curveRef (setSelectedMinutes D (run es)) =
           sampleProductivityCurve (of_int D) samples_default \<and>
         breakMinutes (setSelectedMinutes D (run es)) = None"
proof -
  let ?s' = "setSelectedMinutes D (run es)"
  from queue_cases [OF timer_inv_run [of es]] assms
  have q: "rafCallbacks ?s' = []"
    by (auto simp: handler_defs split: option.splits)
  then have f: "frame now ?s' = ?s'" by (rule frame_idle)
  have "selectedMinutes ?s' = D \<and> \<not> running ?s' \<and> elapsed ?s' = 0 \<and>
        totalSecondsRef ?s' = D * 60 \<and> secondsLeft ?s' = D * 60 \<and>
        curveRef ?s' = sampleProductivityCurve (of_int D) samples_default \<and>
        breakMinutes ?s' = None"
    using assms by (simp add: handler_defs)
  then show ?thesis using q f by simp
qed

theorem duration_change_resets_witness:
  "running (run [ClickBreak 5, ClickStartStop 0, Frame 5000]) \<and>
   breakMinutes (run [ClickBreak 5, ClickStartStop 0, Frame 5000]) = Some 5 \<and>
   elapsed (run [ClickBreak 5, ClickStartStop 0, Frame 5000]) = 5 \<and>
   60 \<noteq> selectedMinutes (run [ClickBreak 5, ClickStartStop 0, Frame 5000]) \<and>
   step (ClickDuration 60) (run [ClickBreak 5, ClickStartStop 0, Frame 5000]) =
     setSelectedMinutes 60 (run [ClickBreak 5, ClickStartStop 0, Frame 5000]) \<and>
   \<not> running (setSelectedMinutes 60 (run [ClickBreak 5, ClickStartStop 0, Frame 5000])) \<and>
   rafCallbacks (setSelectedMinutes 60 (run [ClickBreak 5, ClickStartStop 0, Frame 5000])) = [] \<and>
   elapsed (setSelectedMinutes 60 (run [ClickBreak 5, ClickStartStop 0, Frame 5000])) = 0 \<and>
   secondsLeft (setSelectedMinutes 60 (run [ClickBreak 5, ClickStartStop 0, Frame 5000])) = 3600 \<and>
   breakMinutes (setSelectedMinutes 60 (run [ClickBreak 5, ClickStartStop 0, Frame 5000])) = None"
proof -
  have a: "60 \<noteq> selectedMinutes (run [ClickBreak 5, ClickStartStop 0, Frame 5000])"
    by (simp add: run_def init_def handler_defs elapsedSec_def sub64_def mul64_def div64_def
        double_numeral)
  have b: "running (run [ClickBreak 5, ClickStartStop 0, Frame 5000])"
    "breakMinutes (run [ClickBreak 5, ClickStartStop 0, Frame 5000]) = Some 5"
    "elapsed (run [ClickBreak 5, ClickStartStop 0, Frame 5000]) = 5"
    by (simp_all add: run_def init_def handler_defs elapsedSec_def sub64_def mul64_def div64_def
        double_numeral)
  have c: "step (ClickDuration 60) (run [ClickBreak 5, ClickStartStop 0, Frame 5000]) =
     setSelectedMinutes 60 (run [ClickBreak 5, ClickStartStop 0, Frame 5000])"
    by (simp add: DURATIONS_def)
  show ?thesis using a b c duration_change_resets [OF a] by simp
qed

subsection \<open>The curve sampler\<close>

lemma fold_add_pos:
  assumes "\<And>p. 0 < g p" "(0::real) < a"
  shows "0 < fold (\<lambda>p y. y + g p) xs a"
  using assms(2)
proof (induction xs arbitrary: a)
  case Nil
  then show ?case by simp
next
  case (Cons x xs)
  have "0 < a + g x" using Cons.prems assms(1) [of x] by simp
  then show ?case using Cons.IH by simp
qed

lemma gaussian_pos: "0 < gaussian tMax pk t p"
  by (simp add: gaussian_def Let_def)

lemma peaks_pos: "0 < peaks minutes"
  by (simp add: peaks_def)

lemma peak_sum_pos:
  assumes "0 < pk"
  shows "0 < fold (\<lambda>p y. y + gaussian tMax pk t p) [0..<pk] 0"
proof -
  from assms have "[0..<pk] = 0 # [1..<pk]" by (simp add: upt_conv_Cons)
  then have "fold (\<lambda>p y. y + gaussian tMax pk t p) [0..<pk] 0 =
             fold (\<lambda>p y. y + gaussian tMax pk t p) [1..<pk] (gaussian tMax pk t 0)"
    by simp
  then show ?thesis using fold_add_pos [of "gaussian tMax pk t", OF gaussian_pos gaussian_pos]
    by simp
qed

lemma sampleY_pos:
  assumes "0 < pk" "0 < tMax" "0 \<le> t" "t \<le> tMax"
  shows "0 < sampleY tMax pk t"
proof -
  have "t / tMax \<le> 1" using assms(2,4) by simp
  then have "0 < 1 - 0.15 * (t / tMax)" by simp
  then show ?thesis using peak_sum_pos [OF assms(1)]
    by (simp add: sampleY_def Let_def)
qed

lemma rawPoints_pos:
  assumes "0 < minutes" "0 < samples" "p \<in> set (rawPoints minutes samples)"
  shows "0 < y_point p"
proof -
  from assms(3) have "p \<in> (\<lambda>i. \<lparr>x_point = real i / real samples,
      y_point = sampleY (minutes * 60) (peaks minutes) ((real i / real samples) * (minutes * 60))\<rparr>) `
      {0..<samples + 1}"
    unfolding rawPoints_def Let_def set_map set_upt .
  then obtain i where "i < samples + 1"
    and "p = \<lparr>x_point = real i / real samples,
      y_point = sampleY (minutes * 60) (peaks minutes) ((real i / real samples) * (minutes * 60))\<rparr>"
    by auto
  then have i: "i \<le> samples"
    and p: "y_point p = sampleY (minutes * 60) (peaks minutes) ((real i / real samples) * (minutes * 60))"
    by simp_all
  have f: "real i / real samples \<le> 1" "0 \<le> real i / real samples"
    using i assms(2) by simp_all
  have "0 \<le> (real i / real samples) * (minutes * 60)" using f assms(1) by simp
  moreover have "(real i / real samples) * (minutes * 60) \<le> minutes * 60"
  proof -
    have "0 \<le> minutes * 60" using assms(1) by simp
    from mult_right_mono [OF f(1) this] show ?thesis by simp
  qed
  ultimately show ?thesis using p assms(1) peaks_pos sampleY_pos by simp
qed

lemma normalised_Max:
  fixes ys :: "real list"
  assumes "ys \<noteq> []" "\<forall>y \<in> set ys. 0 < y"
  shows "Max (set (map (\<lambda>y. y / Max (set ys)) ys)) = 1"
proof -
  let ?M = "Max (set ys)"
  have fin: "finite (set ys)" and ne: "set ys \<noteq> {}" using assms(1) by simp_all
  have M_in: "?M \<in> set ys" using fin ne by (rule Max_in)
  then have M_pos: "0 < ?M" using assms(2) by blast
  show ?thesis
  proof (rule Max_eqI)
    show "finite (set (map (\<lambda>y. y / ?M) ys))" by simp
  next
    fix z assume "z \<in> set (map (\<lambda>y. y / ?M) ys)"
    then obtain y where "y \<in> set ys" "z = y / ?M" by auto
    moreover from this have "y \<le> ?M" using fin by simp
    ultimately show "z \<le> 1" using M_pos by simp
  next
    have "?M / ?M = 1" using M_pos by simp
    then show "1 \<in> set (map (\<lambda>y. y / ?M) ys)" using M_in by force
  qed
qed

lemma curve_Max:
  assumes "0 < minutes" "0 < samples"
  shows "Max (set (map y_point (sampleProductivityCurve minutes samples))) = 1"
proof -
  let ?ys = "map y_point (rawPoints minutes samples)"
  have ne: "?ys \<noteq> []" by (simp add: rawPoints_def Let_def)
  have pos: "\<forall>y \<in> set ?ys. 0 < y" using rawPoints_pos [OF assms] by auto
  have "map y_point (sampleProductivityCurve minutes samples) =
        map (\<lambda>y. y / Max (set ?ys)) ?ys"
    by (simp add: sampleProductivityCurve_def Let_def comp_def)
  then show ?thesis using normalised_Max [OF ne pos] by simp
qed

text \<open>
  Claim C5. For every supported duration \<open>D\<close>, the curve that \<^verbatim>\<open>sampleProductivityCurve\<close>
  returns has greatest height exactly 1 after the renormalisation, and the function is
  deterministic and free of side effects: it is a function of the duration and the sample
  count alone, so the curve regenerated at line 100 is the same whatever the state of the
  component in which it is computed.
\<close>

theorem curve_deterministic_with_maximum_one:
  assumes "D \<in> set DURATIONS"
  shows "Max (set (map y_point (sampleProductivityCurve (of_int D) samples_default))) = 1 \<and>
         curveRef (selectedMinutesEffect (s1\<lparr>selectedMinutes := D\<rparr>)) =
           sampleProductivityCurve (of_int D) samples_default \<and>
         curveRef (selectedMinutesEffect (s2\<lparr>selectedMinutes := D\<rparr>)) =
           curveRef (selectedMinutesEffect (s1\<lparr>selectedMinutes := D\<rparr>))"
proof -
  have "0 < real_of_int D" using assms by (auto simp: DURATIONS_def)
  moreover have "0 < samples_default" by (simp add: samples_default_def)
  ultimately have "Max (set (map y_point (sampleProductivityCurve (of_int D) samples_default))) = 1"
    by (rule curve_Max)
  then show ?thesis by (simp add: selectedMinutesEffect_def cancelAnimationFrame_def)
qed

theorem curve_deterministic_with_maximum_one_witness:
  "(30::int) \<in> set DURATIONS \<and>
   Max (set (map y_point (sampleProductivityCurve 30 samples_default))) = 1 \<and>
   Max (set (map y_point (curveRef init))) = 1"
proof -
  have a: "(30::int) \<in> set DURATIONS" by (simp add: DURATIONS_def)
  show ?thesis using a curve_deterministic_with_maximum_one [OF a] by (simp add: init_def)
qed

lemma rawPoints_nth:
  assumes "i \<le> n"
  shows "rawPoints D n ! i =
           \<lparr>x_point = real i / real n,
            y_point = sampleY (D * 60) (peaks D) (real i / real n * (D * 60))\<rparr>"
proof -
  have "i < length [0..<n + 1]" using assms by simp
  then have "map (\<lambda>i. \<lparr>x_point = real i / real n,
      y_point = sampleY (D * 60) (peaks D) (real i / real n * (D * 60))\<rparr>) [0..<n + 1] ! i =
      \<lparr>x_point = real (0 + i) / real n,
       y_point = sampleY (D * 60) (peaks D) (real (0 + i) / real n * (D * 60))\<rparr>"
    unfolding nth_map [OF \<open>i < length [0..<n + 1]\<close>] using assms by (simp only: nth_upt)
  then show ?thesis by (simp add: rawPoints_def Let_def)
qed

lemma rawPoints_length: "length (rawPoints D n) = n + 1"
  by (simp add: rawPoints_def Let_def)

lemma curve_nth:
  assumes "i \<le> n"
  shows "sampleProductivityCurve D n ! i =
           \<lparr>x_point = real i / real n,
            y_point = sampleY (D * 60) (peaks D) (real i / real n * (D * 60)) /
                      Max (set (map y_point (rawPoints D n)))\<rparr>"
proof -
  have "i < length (rawPoints D n)" using assms by (simp add: rawPoints_length)
  then show ?thesis
    by (simp add: sampleProductivityCurve_def Let_def rawPoints_nth [OF assms])
qed

lemma sampleY_one:
  "sampleY tMax 1 t = gaussian tMax 1 t 0 * (1 - 0.15 * (t / tMax))"
  by (simp add: sampleY_def)

lemma sampleY_two:
  "sampleY tMax 2 t = (gaussian tMax 2 t 0 + gaussian tMax 2 t 1) * (1 - 0.15 * (t / tMax))"
proof -
  have "[0..<2] = [0, Suc 0]" by (simp add: upt_rec)
  then show ?thesis by (simp add: sampleY_def)
qed

lemma sampleY_three:
  "sampleY tMax 3 t =
     (gaussian tMax 3 t 0 + gaussian tMax 3 t 1 + gaussian tMax 3 t 2) * (1 - 0.15 * (t / tMax))"
proof -
  have "[0..<3] = [0, Suc 0, 2]" by (simp add: upt_rec numeral_3_eq_3 numeral_2_eq_2)
  then show ?thesis by (simp add: sampleY_def)
qed

text \<open>
  Claim C6. For every duration \<open>D\<close> in minutes, the number of Gaussian peaks that
  \<^verbatim>\<open>sampleProductivityCurve\<close> uses is 1 when \<open>D < 60\<close>, 2 when \<open>60 \<le> D < 90\<close> and 3 when
  \<open>D \<ge> 90\<close>: the height computed at any time is the sum of exactly that many Gaussians,
  times the decay factor, and every point of the returned curve is such a height, at the
  point's time, divided by the greatest height.
\<close>

theorem peaks_by_duration:
  "(D < 60 \<longrightarrow> peaks D = 1 \<and>
      sampleY tMax (peaks D) t = gaussian tMax 1 t 0 * (1 - 0.15 * (t / tMax))) \<and>
   (60 \<le> D \<and> D < 90 \<longrightarrow> peaks D = 2 \<and>
      sampleY tMax (peaks D) t =
        (gaussian tMax 2 t 0 + gaussian tMax 2 t 1) * (1 - 0.15 * (t / tMax))) \<and>
   (90 \<le> D \<longrightarrow> peaks D = 3 \<and>
      sampleY tMax (peaks D) t =
        (gaussian tMax 3 t 0 + gaussian tMax 3 t 1 + gaussian tMax 3 t 2) *
        (1 - 0.15 * (t / tMax))) \<and>
   (\<forall>i \<le> n. sampleProductivityCurve D n ! i =
      \<lparr>x_point = real i / real n,
       y_point = sampleY (D * 60) (peaks D) (real i / real n * (D * 60)) /
                 Max (set (map y_point (rawPoints D n)))\<rparr>)"
proof -
  have a: "D < 60 \<Longrightarrow> peaks D = 1" and b: "60 \<le> D \<Longrightarrow> D < 90 \<Longrightarrow> peaks D = 2"
    and c: "90 \<le> D \<Longrightarrow> peaks D = 3"
    by (simp_all add: peaks_def)
  show ?thesis using a b c sampleY_one sampleY_two sampleY_three curve_nth by metis
qed

theorem peaks_by_duration_witness:
  "(30::real) < 60 \<and> peaks 30 = 1 \<and>
   sampleY 1800 (peaks 30) 900 = gaussian 1800 1 900 0 * (1 - 0.15 * (900 / 1800)) \<and>
   (60::real) \<le> 60 \<and> (60::real) < 90 \<and> peaks 60 = 2 \<and>
   sampleY 3600 (peaks 60) 900 =
     (gaussian 3600 2 900 0 + gaussian 3600 2 900 1) * (1 - 0.15 * (900 / 3600)) \<and>
   (90::real) \<le> 120 \<and> peaks 120 = 3 \<and>
   sampleY 7200 (peaks 120) 900 =
     (gaussian 7200 3 900 0 + gaussian 7200 3 900 1 + gaussian 7200 3 900 2) *
     (1 - 0.15 * (900 / 7200)) \<and>
   (100::nat) \<le> 200 \<and>
   sampleProductivityCurve 30 200 ! 100 =
     \<lparr>x_point = real 100 / real 200,
      y_point = sampleY (30 * 60) (peaks 30) (real 100 / real 200 * (30 * 60)) /
                Max (set (map y_point (rawPoints 30 200)))\<rparr>"
proof -
  have h1: "(30::real) < 60" and h2: "(60::real) \<le> 60 \<and> (60::real) < 90"
    and h3: "(90::real) \<le> 120" and h4: "(100::nat) \<le> 200"
    by simp_all
  from peaks_by_duration [of 30 1800 900 200] h1 have c1:
    "peaks 30 = 1 \<and>
     sampleY 1800 (peaks 30) 900 = gaussian 1800 1 900 0 * (1 - 0.15 * (900 / 1800))"
    by blast
  from peaks_by_duration [of 60 3600 900 200] h2 have c2:
    "peaks 60 = 2 \<and>
     sampleY 3600 (peaks 60) 900 =
       (gaussian 3600 2 900 0 + gaussian 3600 2 900 1) * (1 - 0.15 * (900 / 3600))"
    by blast
  from peaks_by_duration [of 120 7200 900 200] h3 have c3:
    "peaks 120 = 3 \<and>
     sampleY 7200 (peaks 120) 900 =
       (gaussian 7200 3 900 0 + gaussian 7200 3 900 1 + gaussian 7200 3 900 2) *
       (1 - 0.15 * (900 / 7200))"
    by blast
  from peaks_by_duration [of 30 1800 900 200] h4 have c4:
    "sampleProductivityCurve 30 200 ! 100 =
     \<lparr>x_point = real 100 / real 200,
      y_point = sampleY (30 * 60) (peaks 30) (real 100 / real 200 * (30 * 60)) /
                Max (set (map y_point (rawPoints 30 200)))\<rparr>"
    by blast
  show ?thesis using h1 h2 h3 h4 c1 c2 c3 c4 by blast
qed

subsection \<open>The task list\<close>

lemma trim_blank: "trim (ascii ''   '') = []"
  by (simp add: trim_def ascii_def isWhiteSpace_def)

lemma trim_report: "trim (ascii '' Write report  '') = ascii ''Write report''"
  by (simp add: trim_def ascii_def isWhiteSpace_def)

text \<open>
  Claim C7. For every task list: adding a task whose input text is empty after trimming
  leaves the list (and the whole state) unchanged, and no error arises, since \<open>addTask\<close> is
  a total function with no failure value; adding text that is not empty after trimming
  appends exactly one task, not done, at the end, and keeps the existing tasks and their
  order. The new task carries the trimmed text and the clock reading as identifier.
\<close>

theorem addTask_rejects_blank_appends_otherwise:
  "(trim (newTask s) = [] \<longrightarrow> addTask dateNow s = s) \<and>
   (trim (newTask s) \<noteq> [] \<longrightarrow>
      tasks (addTask dateNow s) =
        tasks s @ [\<lparr>id_task = dateNow, text_task = trim (newTask s), done_task = False\<rparr>])"
  by (simp add: addTask_def)

theorem addTask_rejects_blank_appends_otherwise_witness:
  "trim (newTask (init\<lparr>newTask := ascii ''   ''\<rparr>)) = [] \<and>
   addTask 7 (init\<lparr>newTask := ascii ''   ''\<rparr>) = init\<lparr>newTask := ascii ''   ''\<rparr> \<and>
   trim (newTask (init\<lparr>newTask := ascii '' Write report  ''\<rparr>)) \<noteq> [] \<and>
   tasks (addTask 7 (init\<lparr>newTask := ascii '' Write report  ''\<rparr>)) =
     [\<lparr>id_task = 1, text_task = ascii ''Read article'', done_task = False\<rparr>,
      \<lparr>id_task = 2, text_task = ascii ''Write report'', done_task = False\<rparr>,
      \<lparr>id_task = 7, text_task = ascii ''Write report'', done_task = False\<rparr>]"
  using addTask_rejects_blank_appends_otherwise [of "init\<lparr>newTask := ascii ''   ''\<rparr>" 7]
    addTask_rejects_blank_appends_otherwise [of "init\<lparr>newTask := ascii '' Write report  ''\<rparr>" 7]
  by (simp add: trim_blank trim_report) (simp add: init_def ascii_def)

text \<open>
  Claim C8. For every task list and every identifier, toggling by that identifier flips
  the done flag of each task that carries it and changes nothing else: such a task keeps
  its identifier and text, a task with another identifier is unchanged in all fields, the
  list keeps its length and order, and the rest of the state is untouched.
\<close>

theorem toggleTask_flips_only_done:
  "length (tasks (toggleTask i s)) = length (tasks s) \<and>
   (\<forall>k < length (tasks s).
      (id_task (tasks s ! k) = i \<longrightarrow>
         tasks (toggleTask i s) ! k =
           \<lparr>id_task = id_task (tasks s ! k), text_task = text_task (tasks s ! k),
            done_task = \<not> done_task (tasks s ! k)\<rparr>) \<and>
      (id_task (tasks s ! k) \<noteq> i \<longrightarrow> tasks (toggleTask i s) ! k = tasks s ! k)) \<and>
   (toggleTask i s)\<lparr>tasks := tasks s\<rparr> = s"
  by (simp add: toggleTask_def)

theorem toggleTask_flips_only_done_witness:
  "(1::nat) < length (tasks init) \<and> id_task (tasks init ! 1) = 2 \<and>
   tasks (toggleTask 2 init) ! 1 =
     \<lparr>id_task = 2, text_task = ascii ''Write report'', done_task = True\<rparr> \<and>
   (0::nat) < length (tasks init) \<and> id_task (tasks init ! 0) \<noteq> 2 \<and>
   tasks (toggleTask 2 init) ! 0 =
     \<lparr>id_task = 1, text_task = ascii ''Read article'', done_task = False\<rparr>"
  using toggleTask_flips_only_done [of 2 init]
  by (simp add: init_def)

text \<open>
  Claim C9, at an input where it fails. Two tasks are added while \<^verbatim>\<open>Date.now()\<close> reads the
  same millisecond (the text field is typed into between the two clicks): both tasks get
  the same identifier, so the identifiers in the list are not pairwise distinct, and a
  click on the checkbox of either of them marks both as done.
\<close>

theorem addTask_repeats_identifier:
  "map id_task (tasks (run
      [ChangeNewTask (ascii ''a''), ClickAdd 1700000000000,
       ChangeNewTask (ascii ''b''), ClickAdd 1700000000000])) =
     [1, 2, 1700000000000, 1700000000000] \<and>
   \<not> distinct (map id_task (tasks (run
      [ChangeNewTask (ascii ''a''), ClickAdd 1700000000000,
       ChangeNewTask (ascii ''b''), ClickAdd 1700000000000]))) \<and>
   map done_task (tasks (run
      [ChangeNewTask (ascii ''a''), ClickAdd 1700000000000,
       ChangeNewTask (ascii ''b''), ClickAdd 1700000000000,
       ClickCheckbox 1700000000000])) =
     [False, False, True, True]"
  by (simp add: run_def init_def addTask_def toggleTask_def trim_def ascii_def
      isWhiteSpace_def)

text \<open>
  Claim C10. The task list of the freshly mounted component, before any event, holds
  exactly two tasks: identifier 1 with text "Read article" and identifier 2 with text
  "Write report", in this order, neither done.
\<close>

theorem initial_tasks:
  "tasks (run []) =
     [\<lparr>id_task = 1, text_task = ascii ''Read article'', done_task = False\<rparr>,
      \<lparr>id_task = 2, text_task = ascii ''Write report'', done_task = False\<rparr>] \<and>
   map text_task (tasks (run [])) =
     [[0x52, 0x65, 0x61, 0x64, 0x20, 0x61, 0x72, 0x74, 0x69, 0x63, 0x6C, 0x65],
      [0x57, 0x72, 0x69, 0x74, 0x65, 0x20, 0x72, 0x65, 0x70, 0x6F, 0x72, 0x74]]"
  by (simp add: run_def init_def ascii_def)

end
